theory Spec2Isabelle
  imports Main "HOL-Library.Char_ord" "HOL-Library.List_Lexorder"
begin

section \<open>Text-Fabric: windowing, result cache and the Text API\<close>

text \<open>
  A shallow embedding of three parts of Text-Fabric:
  \<^item> \<^verbatim>\<open>tf/server/data.py\<close>: \<^verbatim>\<open>batchAround\<close> and the result assembly of
    \<^verbatim>\<open>TfService.exposed_search\<close>;
  \<^item> \<^verbatim>\<open>tf/applib/search.py\<close>: \<^verbatim>\<open>runSearch\<close> and its cache;
  \<^item> \<^verbatim>\<open>tf/core/text.py\<close>: the section, structure and text methods of \<^verbatim>\<open>Text\<close>.

  Python integers are \<open>int\<close>, tuples and lists are lists, dictionaries are maps, and every
  exception is a value: a function that can raise returns \<open>py_error + 'a\<close>.
\<close>

subsection \<open>Python exceptions and indexing\<close>

datatype py_error = IndexError | KeyError | AttributeError | TypeError | ValueError | RecursionError

text \<open>Sequencing of computations that may raise: the first exception is the result.\<close>

definition bindE :: "py_error + 'a \<Rightarrow> ('a \<Rightarrow> py_error + 'b) \<Rightarrow> py_error + 'b" where
  "bindE m f = (case m of Inl e \<Rightarrow> Inl e | Inr x \<Rightarrow> f x)"

text \<open>\<^verbatim>\<open>xs[i]\<close> on a tuple or list: a negative index counts from the end, an index out of
  range raises IndexError.\<close>

definition py_index :: "'a list \<Rightarrow> int \<Rightarrow> py_error + 'a" where
  "py_index xs i =
     (let len = int (length xs); j = (if i < 0 then len + i else i)
      in if 0 \<le> j \<and> j < len then Inr (xs ! nat j) else Inl IndexError)"

text \<open>\<^verbatim>\<open>d[k]\<close> on a dictionary raises KeyError for a missing key.\<close>

definition py_getitem :: "('k \<rightharpoonup> 'v) \<Rightarrow> 'k \<Rightarrow> py_error + 'v" where
  "py_getitem d k = (case d k of None \<Rightarrow> Inl KeyError | Some v \<Rightarrow> Inr v)"

text \<open>\<^verbatim>\<open>xs[a:b]\<close>: a negative bound counts from the end, both bounds are clipped to the
  sequence, and the slice is empty when the bounds cross.\<close>

definition py_bound :: "nat \<Rightarrow> int \<Rightarrow> nat" where
  "py_bound len i = (if i < 0 then nat (max 0 (int len + i)) else min len (nat i))"

definition py_slice :: "'a list \<Rightarrow> int \<Rightarrow> int \<Rightarrow> 'a list" where
  "py_slice xs a b = (let lo = py_bound (length xs) a; hi = py_bound (length xs) b
                      in take (hi - lo) (drop lo xs))"

subsection \<open>The window around a position (\<^verbatim>\<open>tf/server/data.py\<close>)\<close>

text \<open>
  \<^verbatim>\<open>halfBatch = int((batch + 1) / 2)\<close>: the true quotient, truncated towards zero. (The
  quotient is a float; it is exact as long as \<open>batch + 1\<close> is below \<open>2 ^ 53\<close> in absolute
  value. The window lemmas below are also proved for an arbitrary value of \<open>halfBatch\<close>.)
\<close>

definition halfBatch :: "int \<Rightarrow> int" where
  "halfBatch batch = (if 0 \<le> batch + 1 then (batch + 1) div 2 else - ((- (batch + 1)) div 2))"

text \<open>The body of \<^verbatim>\<open>batchAround\<close> after its first line, for a given \<open>halfBatch\<close>.\<close>

definition batchAroundH :: "int \<Rightarrow> int \<Rightarrow> int \<Rightarrow> int \<Rightarrow> int \<times> int" where
  "batchAroundH hb nResults position batch =
     (let left = min (max (position - hb) 1) nResults;
          right = max (min (position + hb) nResults) 1;
          discrepancy = batch - (right - left + 1);
          right = (if discrepancy \<noteq> 0 then right + discrepancy else right);
          right = (if right > nResults then nResults else right)
      in (left, right))"

definition batchAround :: "int \<Rightarrow> int \<Rightarrow> int \<Rightarrow> int \<times> int" where
  "batchAround nResults position batch = batchAroundH (halfBatch batch) nResults position batch"

subsection \<open>The result cache (\<^verbatim>\<open>tf/applib/search.py\<close>)\<close>

text \<open>
  A result tuple is a tuple of nodes. The executed query object \<^verbatim>\<open>exe\<close> is read through
  \<^verbatim>\<open>getattr(exe, "qnodes", [])\<close> and \<^verbatim>\<open>getattr(S.exe, "nodeMap", {})\<close>: of a query node
  \<^verbatim>\<open>q\<close> only the keys of \<^verbatim>\<open>q[1]\<close> are used.
\<close>

type_synonym node = int
type_synonym result = "node list"
type_synonym features = "(nat \<times> string list) list"

record exe =
  qnodes :: "(string \<times> string list) list"
  nodeMap :: "nat \<rightharpoonup> string list"

text \<open>The cache keys are the tuples \<^verbatim>\<open>(query, False)\<close> and
  \<^verbatim>\<open>(query, True, condenseType)\<close>.\<close>

datatype cache_key = Key2 string bool | Key3 string bool string

type_synonym cache_value = "result list \<times> string \<times> features"

text \<open>
  The application object, as far as \<^verbatim>\<open>runSearch\<close> reads it: \<^verbatim>\<open>app.sets\<close>, the query
  engine \<^verbatim>\<open>S.search\<close> (called with \<^verbatim>\<open>here=False\<close> and a message cache, it returns the
  results, the messages and the executed query), \<^verbatim>\<open>S.exe\<close> (the query executed last
  with \<^verbatim>\<open>here=True\<close>, left alone by these calls) and \<^verbatim>\<open>condense\<close>. The engine and
  \<^verbatim>\<open>condense\<close> are not part of the sources at hand and are parameters.
\<close>

record 'sets app =
  sets :: "'sets option"
  plainSearch :: "string \<Rightarrow> 'sets option \<Rightarrow> result list \<times> string \<times> exe option"
  S_exe :: "exe option"
  condense :: "result list \<Rightarrow> string \<Rightarrow> result list"

text \<open>
  The state: the cache dictionary, which the caller passes in and \<^verbatim>\<open>runSearch\<close> mutates,
  and the log of the queries handed to the engine, which records every invocation of
  \<^verbatim>\<open>S.search\<close>.
\<close>

record search_state =
  cache :: "cache_key \<rightharpoonup> cache_value"
  engineCalls :: "string list"

definition queryFeatures :: "exe option \<Rightarrow> exe option \<Rightarrow> features" where
  "queryFeatures ex sexe =
     (case ex of
        None \<Rightarrow> []
      | Some e \<Rightarrow>
          (let nm = (case sexe of None \<Rightarrow> Map.empty | Some se \<Rightarrow> nodeMap se)
           in map (\<lambda>(i, q). (i, sort (remdups (snd q @ (case nm i of None \<Rightarrow> [] | Some fs \<Rightarrow> fs)))))
                (enumerate 0 (qnodes e))))"

definition runSearch :: "'sets app \<Rightarrow> string \<Rightarrow> search_state \<Rightarrow> cache_value \<times> search_state" where
  "runSearch ap query st =
     (let cacheKey = Key2 query False
      in case cache st cacheKey of
           Some v \<Rightarrow> (v, st)
         | None \<Rightarrow>
             (case plainSearch ap query (sets ap) of
                (queryResults, messages, ex) \<Rightarrow>
                  (let features = queryFeatures ex (S_exe ap);
                       queryResults = sort queryResults;
                       v = (queryResults, messages, features)
                   in (v, st\<lparr>cache := (cache st)(cacheKey \<mapsto> v),
                              engineCalls := engineCalls st @ [query]\<rparr>))))"

definition runSearchCondensed ::
  "'sets app \<Rightarrow> string \<Rightarrow> string \<Rightarrow> search_state \<Rightarrow> cache_value \<times> search_state" where
  "runSearchCondensed ap query condenseType st =
     (let cacheKey = Key3 query True condenseType
      in case cache st cacheKey of
           Some v \<Rightarrow> (v, st)
         | None \<Rightarrow>
             (case runSearch ap query st of
                ((queryResults, messages, features), st1) \<Rightarrow>
                  (let queryResults = condense ap queryResults condenseType;
                       v = (queryResults, messages, features)
                   in (v, st1\<lparr>cache := (cache st1)(cacheKey \<mapsto> v)\<rparr>))))"

subsection \<open>The search service (\<^verbatim>\<open>TfService.exposed_search\<close> in \<^verbatim>\<open>tf/server/data.py\<close>)\<close>

text \<open>\<^verbatim>\<open>s.split(c)\<close> for a separator of one character: the pieces between the separators,
  at least one piece.\<close>

fun py_split :: "char \<Rightarrow> string \<Rightarrow> string list" where
  "py_split c [] = [[]]"
| "py_split c (x # xs) =
     (if x = c then [] # py_split c xs
      else (case py_split c xs of [] \<Rightarrow> [[x]] | p # ps \<Rightarrow> (x # p) # ps))"

text \<open>
  A string stands for the sequence of its code points in UTF-8; splitting at the comma or
  at the newline is the same on the bytes as on the code points. \<^verbatim>\<open>str.strip\<close> and
  \<^verbatim>\<open>int\<close> are functions of Python, not of this program, and are parameters: \<open>str_int\<close>
  gives the integer, or for the ValueError the text of the exception (what \<^verbatim>\<open>f'{e}'\<close>
  shows).
\<close>

record py_builtins =
  str_strip :: "string \<Rightarrow> string"
  str_int :: "string \<Rightarrow> string + int"

text \<open>All elements, unless one is an exception (then the first one).\<close>

fun sequenceE :: "('e + 'a) list \<Rightarrow> 'e + 'a list" where
  "sequenceE [] = Inr []"
| "sequenceE (x # xs) =
     (case x of
        Inl e \<Rightarrow> Inl e
      | Inr y \<Rightarrow> (case sequenceE xs of Inl e \<Rightarrow> Inl e | Inr ys \<Rightarrow> Inr (y # ys)))"

text \<open>
  One line of literal tuples: \<^verbatim>\<open>tuple(int(n) for n in t.strip().split(','))\<close>, or the
  text of the first exception.
\<close>

definition parseTupleLine :: "py_builtins \<Rightarrow> string \<Rightarrow> string + int list" where
  "parseTupleLine B t = sequenceE (map (str_int B) (py_split CHR '','' (str_strip B t)))"

text \<open>
  The literal tuples: every non-empty line \<open>t\<close> at index \<open>i\<close> of \<^verbatim>\<open>tuples.split('\n')\<close> gives
  \<open>(-i - 1, tuple)\<close>. Any exception leaves \<^verbatim>\<open>tupleResults\<close> empty, and its text becomes
  \<^verbatim>\<open>tupleMessages\<close>.
\<close>

definition parseTuples :: "py_builtins \<Rightarrow> string \<Rightarrow> (int \<times> int list) list \<times> string" where
  "parseTuples B tuples =
     (let tupleLines = py_split CHR 0x0A tuples
      in case sequenceE (map (\<lambda>(i, t). case parseTupleLine B t of
                                           Inl msg \<Rightarrow> Inl msg
                                         | Inr ns \<Rightarrow> Inr (- int i - 1, ns))
                           (filter (\<lambda>(i, t). t \<noteq> []) (enumerate 0 tupleLines))) of
           Inl msg \<Rightarrow> ([], msg)
         | Inr rs \<Rightarrow> (rs, []))"

text \<open>
  \<^verbatim>\<open>sorted({n for n in opened if P(n)})\<close>: the members of \<open>opened\<close> that satisfy \<open>P\<close>, each
  once, ascending.
\<close>

definition sortedSet :: "(int \<Rightarrow> bool) \<Rightarrow> int list \<Rightarrow> int list" where
  "sortedSet P opened = sort (remdups (filter P opened))"

text \<open>
  The merged results, lines 109 to 122 of \<^verbatim>\<open>exposed_search\<close>: the literal tuples, the opened
  results before the window, the window, the opened results after the window.
  \<^verbatim>\<open>queryResults[n - 1]\<close> raises IndexError out of range.
\<close>

definition allResults ::
  "(int \<times> result) list \<Rightarrow> result list \<Rightarrow> int list \<Rightarrow> int \<Rightarrow> int \<Rightarrow> py_error + (int \<times> result) list" where
  "allResults tupleResults queryResults opened start end' =
     (let selectedResults = py_slice queryResults (start - 1) end';
          beforeSet = sortedSet (\<lambda>n. n > 0 \<and> n < start) opened;
          afterSet = sortedSet (\<lambda>n. n > end' \<and> n \<le> int (length queryResults)) opened
      in bindE (sequenceE (map (\<lambda>n. bindE (py_index queryResults (n - 1)) (\<lambda>r. Inr (n, r))) beforeSet))
           (\<lambda>beforeResults.
         bindE (sequenceE (map (\<lambda>n. bindE (py_index queryResults (n - 1)) (\<lambda>r. Inr (n, r))) afterSet))
           (\<lambda>afterResults.
         Inr (tupleResults @ beforeResults
              @ map (\<lambda>(i, r). (int i + start, r)) (enumerate 0 selectedResults)
              @ afterResults))))"

text \<open>
  \<^verbatim>\<open>exposed_search\<close> imports \<^verbatim>\<open>runSearch\<close>, \<^verbatim>\<open>runSearchCondensed\<close> and \<^verbatim>\<open>compose\<close> from
  \<^verbatim>\<open>tf.apphelpers\<close>, a module that is not part of the sources at hand: its search functions
  return a pair (results, messages). They are parameters here, acting on a cache of any
  type.
\<close>

record ('c, 'o, 't) apphelpers =
  ah_runSearch :: "string \<Rightarrow> 'c \<Rightarrow> (result list \<times> string) \<times> 'c"
  ah_runSearchCondensed :: "string \<Rightarrow> string \<Rightarrow> 'c \<Rightarrow> (result list \<times> string) \<times> 'c"
  ah_compose :: "(int \<times> result) list \<Rightarrow> int \<Rightarrow> int \<Rightarrow> int list \<Rightarrow> bool \<Rightarrow> string \<Rightarrow> 'o \<Rightarrow> 't"

text \<open>Lines 94 to 105: the query results and messages; messages empty the results.\<close>

definition queryPart ::
  "('c, 'o, 't) apphelpers \<Rightarrow> string \<Rightarrow> bool \<Rightarrow> string \<Rightarrow> 'c \<Rightarrow> (result list \<times> string) \<times> 'c" where
  "queryPart H query condensed condenseType c =
     (if query \<noteq> [] then
        (case (if condensed \<and> condenseType \<noteq> []
               then ah_runSearchCondensed H query condenseType c
               else ah_runSearch H query c) of
           ((queryResults, queryMessages), c') \<Rightarrow>
             ((if queryMessages \<noteq> [] then [] else queryResults, queryMessages), c'))
      else (([], []), c))"

definition exposed_search ::
  "py_builtins \<Rightarrow> ('c, 'o, 't) apphelpers \<Rightarrow> string \<Rightarrow> string \<Rightarrow> bool \<Rightarrow> string \<Rightarrow> int \<Rightarrow> int
     \<Rightarrow> int list \<Rightarrow> 'o \<Rightarrow> 'c \<Rightarrow> (py_error + 't \<times> string \<times> string \<times> int \<times> int) \<times> 'c" where
  "exposed_search B H query tuples condensed condenseType batch position opened options c =
     (case (if tuples \<noteq> [] then parseTuples B tuples else ([], [])) of
        (tupleResults, tupleMessages) \<Rightarrow>
     (case queryPart H query condensed condenseType c of
        ((queryResults, queryMessages), c') \<Rightarrow>
     (let total = int (length tupleResults) + int (length queryResults)
      in case batchAround total position batch of
        (start, end') \<Rightarrow>
          (bindE (allResults tupleResults queryResults opened start end')
             (\<lambda>allRes. Inr (ah_compose H allRes start position (remdups opened) condensed condenseType options,
                            tupleMessages, queryMessages, start, total)),
           c'))))"

subsection \<open>The Text API (\<^verbatim>\<open>tf/core/text.py\<close>): data\<close>

text \<open>
  A heading is a tuple of pairs (node type, feature value); a feature value is an integer
  or a string.
\<close>

datatype fval = IntV int | StrV string

type_synonym heading = "(string \<times> fval) list"

text \<open>
  The six components of \<^verbatim>\<open>C.structure.data\<close>, which \<^verbatim>\<open>Text.__init__\<close> unpacks into
  \<^verbatim>\<open>hdFromNd\<close>, \<^verbatim>\<open>ndFromHd\<close>, \<^verbatim>\<open>hdMult\<close>, \<^verbatim>\<open>hdTop\<close>, \<^verbatim>\<open>hdUp\<close> and \<^verbatim>\<open>hdDown\<close>. When the
  corpus has no structure, all six attributes are \<^verbatim>\<open>None\<close>.
\<close>

record structure_data =
  hdFromNd :: "node \<rightharpoonup> heading"
  ndFromHd :: "heading \<rightharpoonup> node"
  hdMult :: "heading \<rightharpoonup> node list"
  hdTop :: "node list"
  hdUp :: "node \<rightharpoonup> node"
  hdDown :: "node \<rightharpoonup> node list"

text \<open>
  The \<^verbatim>\<open>Text\<close> object with what its methods read of the API: \<^verbatim>\<open>F.otype.v\<close>,
  \<^verbatim>\<open>F.otype.slotType\<close>, \<^verbatim>\<open>F.otype.maxSlot\<close>, \<^verbatim>\<open>E.oslots.data\<close>, \<^verbatim>\<open>L.u\<close> and \<^verbatim>\<open>L.d\<close>
  (with the \<^verbatim>\<open>otype\<close> argument), and its own attributes. A compiled format is a function
  from a node to a string, which may raise.
\<close>

record tf_text =
  fOtype :: "node \<Rightarrow> string"
  slotType :: string
  maxSlot :: int
  eoslots :: "node list list"
  L_u :: "node \<Rightarrow> string \<Rightarrow> node list"
  L_d :: "node \<Rightarrow> string \<Rightarrow> node list"
  sectionTypes :: "string list"
  structureTypes :: "string list"
  C_structure :: "structure_data option"
  defaultFormats :: "string \<rightharpoonup> string"
  xformats :: "string \<rightharpoonup> (node \<Rightarrow> py_error + string)"
  xdTypes :: "string \<rightharpoonup> string"

definition structureTypeSet :: "tf_text \<Rightarrow> string set" where
  "structureTypeSet T = set (structureTypes T)"

definition DEFAULT_FORMAT :: string where
  "DEFAULT_FORMAT = ''text-orig-full''"

text \<open>
  The messages sent to \<^verbatim>\<open>api.error\<close>, by their content. The messages of the explain
  mode of \<^verbatim>\<open>Text.text\<close> carry the values that the message texts show.
\<close>

datatype fmt_source = Explicit | Implicit

datatype diag =
    NotConfigured
  | NotStructureType node string
  | NoNodeWithHeading "heading option"
  | UndefinedFormat string
  | ExplainCall bool nat "(string \<times> string) option" "bool option" bool
  | ExplainNode string node
  | ExplainTarget string bool bool bool
  | ExplainExpansion nat string "node list"
  | ExplainFormatting fmt_source string bool
  | ExplainMaterial
  | ExplainAdds string node string

subsection \<open>Sections\<close>

text \<open>An element of a section tuple: a node, the empty string, or \<^verbatim>\<open>None\<close>.\<close>

datatype sec_elem = SecNode node | SecEmpty | SecNone

text \<open>\<^verbatim>\<open>xs[0] if xs else d\<close>\<close>

definition firstOr :: "sec_elem \<Rightarrow> node list \<Rightarrow> sec_elem" where
  "firstOr d xs = (case xs of [] \<Rightarrow> d | x # _ \<Rightarrow> SecNode x)"

text \<open>The reference slot \<open>r\<close> of a node: the node itself if it is a slot, else its first or
  last slot.\<close>

definition refSlot :: "tf_text \<Rightarrow> node \<Rightarrow> bool \<Rightarrow> py_error + node" where
  "refSlot T n lastSlot =
     (if fOtype T n = slotType T then Inr n
      else bindE (py_index (eoslots T) (n - maxSlot T - 1))
             (\<lambda>slots. py_index slots (if lastSlot then - 1 else 0)))"

definition sectionTuple :: "tf_text \<Rightarrow> node \<Rightarrow> bool \<Rightarrow> bool \<Rightarrow> py_error + sec_elem list" where
  "sectionTuple T n lastSlot fillup =
     (let sTypes = sectionTypes T; lsTypes = length sTypes
      in if lsTypes = 0 then Inr []
         else
           (let nType = fOtype T n
            in bindE (refSlot T n lastSlot) (\<lambda>r.
               bindE (py_index sTypes 0) (\<lambda>s0.
               if nType = s0 then
                 (if fillup then
                    bindE (py_index sTypes 1) (\<lambda>s1.
                    let r1 = firstOr SecEmpty (L_u T r s1)
                    in if lsTypes > 2 then
                         bindE (py_index sTypes 2) (\<lambda>s2.
                         Inr [SecNode n, r1, firstOr SecEmpty (L_u T r s2)])
                       else Inr [SecNode n, r1])
                  else Inr [SecNode n])
               else
                 (let r0 = firstOr SecNone (L_u T r s0)
                  in bindE (py_index sTypes 1) (\<lambda>s1.
                     if nType = s1 then
                       (if fillup \<and> lsTypes > 2 then
                          bindE (py_index sTypes 2) (\<lambda>s2.
                          Inr [r0, SecNode n, firstOr SecEmpty (L_u T r s2)])
                        else Inr [r0, SecNode n])
                     else
                       (let r1 = firstOr SecEmpty (L_u T r s1)
                        in if lsTypes < 3 then Inr [r0, r1]
                           else
                             bindE (py_index sTypes 2) (\<lambda>s2.
                             if nType = s2 then Inr [r0, r1, SecNode n]
                             else Inr [r0, r1, firstOr SecEmpty (L_u T r s2)]))))))))"

text \<open>
  The section tuple in the words of the specification, level by level: at the level of
  the node's own type (the first such level) stands the node itself; at any other level
  stands the first node of that level's type above the reference slot \<open>r\<close>, or the
  placeholder when there is none, which is \<^verbatim>\<open>None\<close> at the first level and the empty
  string below it.
\<close>

definition sectionLevel :: "tf_text \<Rightarrow> node \<Rightarrow> node \<Rightarrow> nat \<Rightarrow> sec_elem" where
  "sectionLevel T n r i =
     (if fOtype T n = sectionTypes T ! i \<and> fOtype T n \<notin> set (take i (sectionTypes T))
      then SecNode n
      else firstOr (if i = 0 then SecNone else SecEmpty) (L_u T r (sectionTypes T ! i)))"

subsection \<open>Structure\<close>

definition top :: "tf_text \<Rightarrow> diag list \<times> node list option" where
  "top T =
     (case C_structure T of
        None \<Rightarrow> ([NotConfigured], None)
      | Some sd \<Rightarrow> ([], Some (hdTop sd)))"

definition up :: "tf_text \<Rightarrow> node \<Rightarrow> diag list \<times> node option" where
  "up T n =
     (case C_structure T of
        None \<Rightarrow> ([NotConfigured], None)
      | Some sd \<Rightarrow>
          (let nType = fOtype T n
           in if nType \<notin> structureTypeSet T then ([NotStructureType n nType], None)
              else ([], hdUp sd n)))"

definition down :: "tf_text \<Rightarrow> node \<Rightarrow> diag list \<times> node list option" where
  "down T n =
     (case C_structure T of
        None \<Rightarrow> ([NotConfigured], None)
      | Some sd \<Rightarrow>
          (let nType = fOtype T n
           in if nType \<notin> structureTypeSet T then ([NotStructureType n nType], None)
              else ([], Some (case hdDown sd n of None \<Rightarrow> [] | Some ds \<Rightarrow> ds))))"

definition headingFromNode :: "tf_text \<Rightarrow> node \<Rightarrow> diag list \<times> heading option" where
  "headingFromNode T n =
     (case C_structure T of
        None \<Rightarrow> ([NotConfigured], None)
      | Some sd \<Rightarrow>
          (let nType = fOtype T n
           in if nType \<notin> structureTypeSet T then ([NotStructureType n nType], None)
              else ([], hdFromNd sd n)))"

text \<open>
  \<^verbatim>\<open>nodeFromHeading\<close>: after the message for a missing structure the method goes on and
  calls \<^verbatim>\<open>ndFromHd.get\<close> on \<^verbatim>\<open>None\<close>, which raises AttributeError. The argument can be any
  value, also the \<^verbatim>\<open>None\<close> that \<^verbatim>\<open>headingFromNode\<close> may return.
\<close>

definition nodeFromHeading :: "tf_text \<Rightarrow> heading option \<Rightarrow> diag list \<times> (py_error + node option)" where
  "nodeFromHeading T head =
     (case C_structure T of
        None \<Rightarrow> ([NotConfigured], Inl AttributeError)
      | Some sd \<Rightarrow>
          (let n = (case head of None \<Rightarrow> None | Some h \<Rightarrow> ndFromHd sd h)
           in ((if n = None then [NoNodeWithHeading head] else []), Inr n)))"

text \<open>
  \<^verbatim>\<open>structure\<close> (here \<open>structureT\<close>) returns \<^verbatim>\<open>None\<close>, a pair of a node and the tuple of the structures of its
  children, or (for the argument \<^verbatim>\<open>None\<close>) the tuple of the structures of the top nodes.
  It calls itself for every child; the first argument of the model is the number of
  nested calls the interpreter still allows (its recursion limit), and a call beyond it
  raises RecursionError. Iterating over a \<^verbatim>\<open>None\<close> returned by \<^verbatim>\<open>top\<close> or \<^verbatim>\<open>down\<close> raises
  TypeError.
\<close>

datatype stree = SNone | STree node "stree list" | SForest "stree list"

function structureT :: "nat \<Rightarrow> tf_text \<Rightarrow> node option \<Rightarrow> diag list \<times> (py_error + stree)"
  and structureAll :: "nat \<Rightarrow> tf_text \<Rightarrow> node list \<Rightarrow> diag list \<times> (py_error + stree list)"
where
  "structureT 0 T node = ([], Inl RecursionError)"
| "structureT (Suc k) T node =
     (case C_structure T of
        None \<Rightarrow> ([NotConfigured], Inr SNone)
      | Some sd \<Rightarrow>
          (case node of
             None \<Rightarrow>
               (case top T of
                  (d, None) \<Rightarrow> (d, Inl TypeError)
                | (d, Some ts) \<Rightarrow>
                    (case structureAll k T ts of
                       (ds, Inl e) \<Rightarrow> (d @ ds, Inl e)
                     | (ds, Inr trees) \<Rightarrow> (d @ ds, Inr (SForest trees))))
           | Some n \<Rightarrow>
               (let nType = fOtype T n
                in if nType \<notin> structureTypeSet T then ([NotStructureType n nType], Inr SNone)
                   else
                     (case down T n of
                        (d, None) \<Rightarrow> (d, Inl TypeError)
                      | (d, Some cs) \<Rightarrow>
                          (case structureAll k T cs of
                             (ds, Inl e) \<Rightarrow> (d @ ds, Inl e)
                           | (ds, Inr trees) \<Rightarrow> (d @ ds, Inr (STree n trees)))))))"
| "structureAll k T [] = ([], Inr [])"
| "structureAll k T (n # ns) =
     (case structureT k T (Some n) of
        (d, Inl e) \<Rightarrow> (d, Inl e)
      | (d, Inr t) \<Rightarrow>
          (case structureAll k T ns of
             (ds, Inl e) \<Rightarrow> (d @ ds, Inl e)
           | (ds, Inr ts) \<Rightarrow> (d @ ds, Inr (t # ts))))"
  by pat_completeness auto
termination
  by (relation "measures
        [\<lambda>x. case x of Inl (k, T, node) \<Rightarrow> k | Inr (k, T, ns) \<Rightarrow> k,
         \<lambda>x. case x of Inl (k, T, node) \<Rightarrow> 0 | Inr (k, T, ns) \<Rightarrow> Suc (length ns)]") auto

text \<open>
  Modelled from the spec: the construction of the structure index. \<^verbatim>\<open>C.structure\<close> is
  precomputed outside the sources at hand. By the specification every structural node has
  a heading (the pairs of type and label of its ancestors and itself); headings need not
  be unique, a multiplicity map records the headings that several nodes share, and the
  lookup from heading to node gives the node encountered last in corpus node order. By
  the method descriptions the parent of a node is the node whose heading is the node's
  heading without its last pair, and the children are the nodes of which it is the
  parent. The argument lists the structural nodes with their headings in corpus node
  order.
\<close>

definition buildStructure :: "(node \<times> heading) list \<Rightarrow> structure_data" where
  "buildStructure nhs =
     (let nd = fold (\<lambda>(n, h) m. m(h \<mapsto> n)) nhs Map.empty
      in \<lparr>hdFromNd = map_of nhs,
          ndFromHd = nd,
          hdMult = (\<lambda>h. let ns = map fst (filter (\<lambda>p. snd p = h) nhs)
                         in if length ns > 1 then Some ns else None),
          hdTop = map fst (filter (\<lambda>p. length (snd p) = 1) nhs),
          hdUp = (\<lambda>n. case map_of nhs n of
                         None \<Rightarrow> None
                       | Some h \<Rightarrow> if length h \<le> 1 then None else nd (butlast h)),
          hdDown = (\<lambda>n. let cs = map fst (filter (\<lambda>p. length (snd p) > 1 \<and> nd (butlast (snd p)) = Some n) nhs)
                         in if cs = [] then None else Some cs)\<rparr>)"

subsection \<open>Rendering text (\<^verbatim>\<open>Text.text\<close>)\<close>

text \<open>
  The \<^verbatim>\<open>nodes\<close> argument is a single node (\<^verbatim>\<open>type(nodes) is int\<close>) or an iterable of
  nodes. The \<^verbatim>\<open>descend\<close> argument is \<^verbatim>\<open>None\<close>, \<^verbatim>\<open>True\<close> or \<^verbatim>\<open>False\<close>. An optional string
  such as \<^verbatim>\<open>fmt\<close> is true in the sense of Python when it is neither \<^verbatim>\<open>None\<close> nor the
  empty string; \<open>truthy\<close> gives the string in that case.
\<close>

datatype nodes_arg = Single node | Iterable "node list"

definition truthy :: "string option \<Rightarrow> string option" where
  "truthy fmt = (case fmt of None \<Rightarrow> None | Some f \<Rightarrow> if f = [] then None else Some f)"

text \<open>
  What the first part of the loop body settles for a node of type \<open>nType\<close>: the format
  function \<^verbatim>\<open>repf\<close>, under which name it was looked up in \<^verbatim>\<open>xformats\<close> and whether that
  name was passed by the caller, the type \<^verbatim>\<open>downType\<close> to descend to, and whether the
  explanation calls that type the format target type (\<^verbatim>\<open>downRep\<close>).
\<close>

record resolved =
  r_source :: fmt_source
  r_name :: string
  r_repf :: "node \<Rightarrow> py_error + string"
  r_downType :: string
  r_downRep :: bool

definition resolveFormat :: "tf_text \<Rightarrow> string option \<Rightarrow> bool option \<Rightarrow> string \<Rightarrow> py_error + resolved" where
  "resolveFormat T fmt descend nType =
     (if descend = Some True then
        (case truthy fmt of
           Some f \<Rightarrow>
             bindE (py_getitem (xformats T) f) (\<lambda>repf.
             bindE (py_getitem (xdTypes T) f) (\<lambda>downType.
             Inr \<lparr>r_source = Explicit, r_name = f, r_repf = repf,
                  r_downType = downType, r_downRep = True\<rparr>))
         | None \<Rightarrow>
             bindE (py_getitem (xformats T) DEFAULT_FORMAT) (\<lambda>repf.
             bindE (py_getitem (xdTypes T) DEFAULT_FORMAT) (\<lambda>downType.
             Inr \<lparr>r_source = Implicit, r_name = DEFAULT_FORMAT, r_repf = repf,
                  r_downType = downType, r_downRep = True\<rparr>)))
      else
        (case truthy fmt of
           Some f \<Rightarrow>
             bindE (py_getitem (xformats T) f) (\<lambda>repf.
             if descend = None then
               bindE (py_getitem (xdTypes T) f) (\<lambda>downType.
               Inr \<lparr>r_source = Explicit, r_name = f, r_repf = repf,
                    r_downType = downType, r_downRep = True\<rparr>)
             else Inr \<lparr>r_source = Explicit, r_name = f, r_repf = repf,
                       r_downType = nType, r_downRep = False\<rparr>)
         | None \<Rightarrow>
             (case defaultFormats T nType of
                Some dfmt \<Rightarrow>
                  bindE (py_getitem (xformats T) dfmt) (\<lambda>repf.
                  Inr \<lparr>r_source = Implicit, r_name = dfmt, r_repf = repf,
                       r_downType = nType, r_downRep = (descend = None)\<rparr>)
              | None \<Rightarrow>
                  bindE (py_getitem (xformats T) DEFAULT_FORMAT) (\<lambda>repf.
                  if descend = None then
                    bindE (py_getitem (xdTypes T) DEFAULT_FORMAT) (\<lambda>downType.
                    Inr \<lparr>r_source = Implicit, r_name = DEFAULT_FORMAT, r_repf = repf,
                         r_downType = downType, r_downRep = True\<rparr>)
                  else Inr \<lparr>r_source = Implicit, r_name = DEFAULT_FORMAT, r_repf = repf,
                            r_downType = nType, r_downRep = False\<rparr>))))"

text \<open>
  The nodes that replace a node: none other if \<^verbatim>\<open>downType\<close> is the type of the node (it is
  then set to \<^verbatim>\<open>None\<close>) or is the empty string, its slots if \<^verbatim>\<open>downType\<close> is the slot type,
  else its descendants of that type.
\<close>

definition expand :: "tf_text \<Rightarrow> node \<Rightarrow> string \<Rightarrow> string \<Rightarrow> py_error + node list" where
  "expand T node nType downType =
     (let downType' = (if downType = nType then None else Some downType)
      in if downType' = Some (slotType T) then py_index (eoslots T) (node - maxSlot T - 1)
         else (case truthy downType' of
                 Some dt \<Rightarrow> Inr (L_d T node dt)
               | None \<Rightarrow> Inr [node]))"

text \<open>Running a function that reports messages and may raise over a list, in order, up to
  the first exception.\<close>

fun mapD :: "('a \<Rightarrow> diag list \<times> (py_error + 'b)) \<Rightarrow> 'a list \<Rightarrow> diag list \<times> (py_error + 'b list)" where
  "mapD f [] = ([], Inr [])"
| "mapD f (x # xs) =
     (case f x of
        (d, Inl e) \<Rightarrow> (d, Inl e)
      | (d, Inr y) \<Rightarrow>
          (case mapD f xs of
             (ds, Inl e) \<Rightarrow> (d @ ds, Inl e)
           | (ds, Inr ys) \<Rightarrow> (d @ ds, Inr (y # ys))))"

text \<open>The messages of the explain mode are sent only when \<^verbatim>\<open>explain\<close> is set.\<close>

definition explaining :: "bool \<Rightarrow> diag list \<Rightarrow> diag list" where
  "explaining explain ds = (if explain then ds else [])"

text \<open>
  The body of the loop over the nodes: the pieces of text that one node adds to
  \<^verbatim>\<open>material\<close>. A custom function \<^verbatim>\<open>func\<close> replaces the format function; it receives the
  keyword arguments, which a compiled format ignores. (A format function is never false
  in the sense of Python, so the branch that falls back on \<^verbatim>\<open>rescue\<close> is never taken.)
\<close>

definition textNode ::
  "tf_text \<Rightarrow> string option \<Rightarrow> bool option \<Rightarrow> (node \<Rightarrow> 'kw \<Rightarrow> py_error + string) option \<Rightarrow> bool \<Rightarrow> 'kw
     \<Rightarrow> node \<Rightarrow> diag list \<times> (py_error + string list)" where
  "textNode T fmt descend func explain kwargs node =
     (let nType = fOtype T node;
          d1 = explaining explain [ExplainNode nType node]
      in case resolveFormat T fmt descend nType of
           Inl e \<Rightarrow> (d1, Inl e)
         | Inr rf \<Rightarrow>
             (let downType = r_downType rf;
                  d2 = explaining explain
                         [ExplainTarget downType (descend = Some True) (r_downRep rf) (downType = nType)]
              in case expand T node nType downType of
                   Inl e \<Rightarrow> (d1 @ d2, Inl e)
                 | Inr xnodes \<Rightarrow>
                     (let d3 = explaining explain
                                 [ExplainExpansion (length xnodes)
                                    (if downType = nType \<or> downType = [] then nType else downType) xnodes];
                          repf = (case func of None \<Rightarrow> r_repf rf | Some f \<Rightarrow> (\<lambda>n. f n kwargs));
                          d4 = explaining explain
                                 [ExplainFormatting (r_source rf) (r_name rf) (func \<noteq> None), ExplainMaterial]
                      in case mapD (\<lambda>n. case repf n of
                                           Inl e \<Rightarrow> ([], Inl e)
                                         | Inr rep \<Rightarrow> (explaining explain [ExplainAdds (fOtype T n) n rep], Inr rep))
                                xnodes of
                           (d5, Inl e) \<Rightarrow> (d1 @ d2 @ d3 @ d4 @ d5, Inl e)
                         | (d5, Inr reps) \<Rightarrow> (d1 @ d2 @ d3 @ d4 @ d5, Inr reps))))"

text \<open>
  \<^verbatim>\<open>Text.text\<close> (here \<open>textT\<close>). An explicit format that is not defined gives a message and the empty
  string. The first message of the explain mode shows \<^verbatim>\<open>xdTypes[fmt]\<close> for an explicit
  format. The result is the concatenation of all the pieces.
\<close>

definition textT ::
  "tf_text \<Rightarrow> nodes_arg \<Rightarrow> string option \<Rightarrow> bool option \<Rightarrow> (node \<Rightarrow> 'kw \<Rightarrow> py_error + string) option \<Rightarrow> bool \<Rightarrow> 'kw
     \<Rightarrow> diag list \<times> (py_error + string)" where
  "textT T nodes fmt descend func explain kwargs =
     (if (case truthy fmt of None \<Rightarrow> False | Some f \<Rightarrow> xformats T f = None)
      then ([UndefinedFormat (case fmt of None \<Rightarrow> [] | Some f \<Rightarrow> f)], Inr [])
      else
        (let single = (case nodes of Single n \<Rightarrow> True | Iterable ns \<Rightarrow> False);
             nodeList = (case nodes of Single n \<Rightarrow> [n] | Iterable ns \<Rightarrow> ns);
             header = (if explain then
                         (case truthy fmt of
                            None \<Rightarrow> Inr [ExplainCall single (length nodeList) None descend (func \<noteq> None)]
                          | Some f \<Rightarrow>
                              bindE (py_getitem (xdTypes T) f) (\<lambda>t.
                              Inr [ExplainCall single (length nodeList) (Some (f, t)) descend (func \<noteq> None)]))
                       else Inr [])
         in case header of
              Inl e \<Rightarrow> ([], Inl e)
            | Inr d0 \<Rightarrow>
                (case mapD (textNode T fmt descend func explain kwargs) nodeList of
                   (d, Inl e) \<Rightarrow> (d0 @ d, Inl e)
                 | (d, Inr material) \<Rightarrow> (d0 @ d, Inr (concat (concat material))))))"

subsection \<open>Example values for the Text API\<close>

text \<open>
  A corpus of two words (the slots \<open>1\<close> and \<open>2\<close>), a lexeme \<open>3\<close>, a book \<open>4\<close> and a chapter
  \<open>5\<close>, each over both words; two section levels; no structure; the formats
  \<^verbatim>\<open>text-orig-full\<close> (on words) and \<^verbatim>\<open>lex-default\<close> (declared on lexemes).
\<close>

definition corpus0 :: tf_text where
  "corpus0 =
     \<lparr>fOtype = (\<lambda>n. if n \<le> 2 then ''word'' else if n = 3 then ''lex''
                     else if n = 4 then ''book'' else ''chapter''),
      slotType = ''word'',
      maxSlot = 2,
      eoslots = [[1, 2], [1, 2], [1, 2]],
      L_u = (\<lambda>n t. if t = ''book'' then [4] else if t = ''chapter'' then [5] else []),
      L_d = (\<lambda>n t. []),
      sectionTypes = [''book'', ''chapter''],
      structureTypes = [''book'', ''chapter''],
      C_structure = None,
      defaultFormats = [''lex'' \<mapsto> ''lex-default''],
      xformats = [''text-orig-full'' \<mapsto> (\<lambda>n. Inr (if n = 1 then ''a '' else ''b '')),
                  ''lex-default'' \<mapsto> (\<lambda>n. Inr ''LEX'')],
      xdTypes = [''text-orig-full'' \<mapsto> ''word'', ''lex-default'' \<mapsto> ''lex'']\<rparr>"

text \<open>The same corpus with one section level only.\<close>

definition corpus1 :: tf_text where
  "corpus1 = corpus0\<lparr>sectionTypes := [''book'']\<rparr>"

text \<open>The same corpus with a structure of a book and two chapters in it; the chapters
  \<open>5\<close> and \<open>6\<close> have the same heading.\<close>

definition headings2 :: "(node \<times> heading) list" where
  "headings2 = [(4, [(''book'', StrV ''Genesis'')]),
                (5, [(''book'', StrV ''Genesis''), (''chapter'', IntV 1)]),
                (6, [(''book'', StrV ''Genesis''), (''chapter'', IntV 1)])]"

text \<open>The same corpus with a third section level that has no nodes.\<close>

definition corpus3 :: tf_text where
  "corpus3 = corpus0\<lparr>sectionTypes := [''book'', ''chapter'', ''verse'']\<rparr>"

definition corpus2 :: tf_text where
  "corpus2 = corpus0\<lparr>C_structure := Some (buildStructure headings2)\<rparr>"

subsection \<open>Example values for the search layer\<close>

text \<open>An engine that returns two results together with a message, an empty cache, and
  search helpers for the service that answer every query with a message.\<close>

definition app0 :: "unit app" where
  "app0 = \<lparr>sets = None, plainSearch = (\<lambda>q s. ([[2], [1]], ''bad feature'', None)),
           S_exe = None, condense = (\<lambda>rs t. rs)\<rparr>"

definition st0 :: search_state where
  "st0 = \<lparr>cache = Map.empty, engineCalls = []\<rparr>"

definition helpers0 :: "(unit, unit, unit) apphelpers" where
  "helpers0 = \<lparr>ah_runSearch = (\<lambda>q c. (([[1], [2]], ''bad feature''), c)),
               ah_runSearchCondensed = (\<lambda>q t c. (([[1], [2]], ''bad feature''), c)),
               ah_compose = (\<lambda>rs start position opened condensed condenseType options. ())\<rparr>"

text \<open>
  Search helpers that answer every query with one result and no message, and the
  functions of Python on the strings that the examples use (digits without white space).
\<close>

definition helpers1 :: "(unit, unit, (int \<times> result) list) apphelpers" where
  "helpers1 = \<lparr>ah_runSearch = (\<lambda>q c. (([[10]], []), c)),
               ah_runSearchCondensed = (\<lambda>q t c. (([[10]], []), c)),
               ah_compose = (\<lambda>rs start position opened condensed condenseType options. rs)\<rparr>"

definition builtins0 :: py_builtins where
  "builtins0 = \<lparr>str_strip = (\<lambda>s. s),
                str_int = (\<lambda>s. if s = ''7'' then Inr 7 else if s = ''8'' then Inr 8
                               else if s = ''9'' then Inr 9 else Inl ''not a number'')\<rparr>"

subsection \<open>Properties of the window\<close>

lemma batchAroundH_eq:
  "batchAroundH hb n p b =
     (min (max (p - hb) 1) n, min (min (max (p - hb) 1) n + b - 1) n)"
  by (simp add: batchAroundH_def Let_def min_def max_def)

lemma batchAroundH_bounds:
  assumes "0 < n" and "0 < b"
  shows "1 \<le> fst (batchAroundH hb n p b)"
    and "fst (batchAroundH hb n p b) \<le> snd (batchAroundH hb n p b)"
    and "snd (batchAroundH hb n p b) \<le> n"
  using assms by (simp_all add: batchAroundH_eq min_def max_def)

lemma batchAroundH_width:
  assumes "0 < n" and "0 < b"
  shows "snd (batchAroundH hb n p b) - fst (batchAroundH hb n p b) + 1
           = min b (n - fst (batchAroundH hb n p b) + 1)"
  using assms by (simp add: batchAroundH_eq min_def max_def)

lemma batchAroundH_full_width:
  assumes "0 < n" and "0 < b"
  shows "snd (batchAroundH hb n p b) - fst (batchAroundH hb n p b) + 1 = min b n
           \<longleftrightarrow> fst (batchAroundH hb n p b) \<le> max 1 (n - b + 1)"
  using assms by (auto simp add: batchAroundH_eq min_def max_def)

lemma batchAroundH_zero:
  assumes "0 < b"
  shows "batchAroundH hb 0 p b = (0, 0)"
  using assms by (simp add: batchAroundH_eq min_def max_def)

text \<open>
  Claim C9. For every total \<open>n > 0\<close>, every batch size \<open>b > 0\<close> and every integer position
  \<open>p\<close>, the window \<open>(left, right)\<close> returned by \<open>batchAround\<close> satisfies
  \<open>1 \<le> left \<le> right \<le> n\<close>.
\<close>

theorem batchAround_in_range:
  assumes "0 < n" and "0 < b" and "batchAround n p b = (left, right)"
  shows "1 \<le> left \<and> left \<le> right \<and> right \<le> n"
proof -
  have "left = fst (batchAroundH (halfBatch b) n p b)"
    and "right = snd (batchAroundH (halfBatch b) n p b)"
    using assms(3) by (simp_all add: batchAround_def)
  then show ?thesis
    using batchAroundH_bounds [OF assms(1) assms(2), of "halfBatch b" p] by simp
qed

theorem batchAround_in_range_witness:
  "(0::int) < 100 \<and> (0::int) < 10 \<and> batchAround 100 97 10 = (92, 100)
     \<and> (1::int) \<le> 92 \<and> (92::int) \<le> 100 \<and> (100::int) \<le> 100"
proof -
  have e: "batchAround 100 97 10 = (92, 100)"
    by (simp add: batchAround_def batchAroundH_def halfBatch_def Let_def)
  show ?thesis
    using batchAround_in_range [of 100 10 97 92 100] e by simp
qed

text \<open>
  Claim C2, as stated (the width \<open>right - left + 1\<close> is \<open>min b n\<close> for every position, and
  \<open>0\<close> when \<open>n = 0\<close>), fails: with \<open>100\<close> results and the position on the last one, the
  window of size \<open>10\<close> is clipped on the right and not extended to the left; with no
  results the pair is \<open>(0, 0)\<close>.
\<close>

theorem batchAround_width_counterexample:
  "batchAround 100 100 10 = (95, 100) \<and> (100::int) - 95 + 1 \<noteq> min 10 100
     \<and> batchAround 0 1 10 = (0, 0) \<and> (0::int) - 0 + 1 \<noteq> 0"
  by (simp add: batchAround_def batchAroundH_def halfBatch_def Let_def)

text \<open>
  Claim C2, amended. For \<open>n > 0\<close> and \<open>b > 0\<close> the window \<open>(left, right)\<close> has width
  \<open>min b (n - left + 1)\<close>: \<open>right\<close> is \<open>left + b - 1\<close> cut off at \<open>n\<close>. The width is
  \<open>min b n\<close> exactly when \<open>left \<le> max 1 (n - b + 1)\<close>, that is, unless the window is clipped
  at the right end. For \<open>n = 0\<close> the result is \<open>(0, 0)\<close>. The three examples of the
  specification hold.
\<close>

theorem batchAround_width:
  "(0 < n \<and> 0 < b \<longrightarrow>
      (case batchAround n p b of (left, right) \<Rightarrow>
         right - left + 1 = min b (n - left + 1)
         \<and> (right - left + 1 = min b n \<longleftrightarrow> left \<le> max 1 (n - b + 1))))
   \<and> (0 < b \<longrightarrow> batchAround 0 p b = (0, 0))
   \<and> batchAround 100 50 10 = (45, 54)
   \<and> batchAround 100 3 10 = (1, 10)
   \<and> batchAround 5 3 10 = (1, 5)"
proof -
  have general: "case batchAround n p b of (left, right) \<Rightarrow>
         right - left + 1 = min b (n - left + 1)
         \<and> (right - left + 1 = min b n \<longleftrightarrow> left \<le> max 1 (n - b + 1))"
    if "0 < n" and "0 < b"
    using batchAroundH_width [OF that, of "halfBatch b" p]
      batchAroundH_full_width [OF that, of "halfBatch b" p]
    by (simp add: batchAround_def case_prod_beta)
  have zero: "batchAround 0 p b = (0, 0)" if "0 < b"
    using batchAroundH_zero [OF that] by (simp add: batchAround_def)
  have examples: "batchAround 100 50 10 = (45, 54)" "batchAround 100 3 10 = (1, 10)"
    "batchAround 5 3 10 = (1, 5)"
    by (simp_all add: batchAround_def batchAroundH_def halfBatch_def Let_def)
  show ?thesis
  proof (intro conjI impI)
    assume "0 < n \<and> 0 < b"
    then show "case batchAround n p b of (left, right) \<Rightarrow>
         right - left + 1 = min b (n - left + 1)
         \<and> (right - left + 1 = min b n \<longleftrightarrow> left \<le> max 1 (n - b + 1))"
      using general by simp
  next
    assume "0 < b"
    then show "batchAround 0 p b = (0, 0)" by (rule zero)
  qed (simp_all only: examples)
qed

theorem batchAround_width_witness:
  "(0::int) < 100 \<and> (0::int) < 10
     \<and> (case batchAround 100 50 10 of (left, right) \<Rightarrow> right - left + 1 = min 10 100)
     \<and> (case batchAround 100 100 10 of (left, right) \<Rightarrow> right - left + 1 = min 10 (100 - left + 1))
     \<and> batchAround 0 7 10 = (0, 0)"
  using batchAround_width [of 100 10 50] batchAround_width [of 100 10 100]
    batchAround_width [of 1 10 7]
  by (simp add: batchAround_def batchAroundH_def halfBatch_def Let_def)

subsection \<open>Properties of the result cache\<close>

lemma runSearch_hit:
  assumes "cache st (Key2 q False) = Some v"
  shows "runSearch ap q st = (v, st)"
  using assms by (simp add: runSearch_def)

lemma runSearch_miss:
  assumes "cache st (Key2 q False) = None" and "plainSearch ap q (sets ap) = (rs, msgs, ex)"
  shows "runSearch ap q st =
           ((sort rs, msgs, queryFeatures ex (S_exe ap)),
            st\<lparr>cache := (cache st)(Key2 q False \<mapsto> (sort rs, msgs, queryFeatures ex (S_exe ap))),
               engineCalls := engineCalls st @ [q]\<rparr>)"
  using assms by (simp add: runSearch_def Let_def)

lemma runSearch_entry:
  "cache (snd (runSearch ap q st)) (Key2 q False) = Some (fst (runSearch ap q st))"
proof (cases "cache st (Key2 q False)")
  case None
  obtain rs msgs ex where e: "plainSearch ap q (sets ap) = (rs, msgs, ex)"
    by (cases "plainSearch ap q (sets ap)") auto
  show ?thesis by (simp add: runSearch_miss [OF None e])
next
  case (Some v)
  then show ?thesis by (simp add: runSearch_hit)
qed

text \<open>
  Claim C5. A call of \<open>runSearch\<close> for a query returns the value cached under the key
  (query, False) if there is one, and else the engine's results, sorted, with its messages
  and the feature usage; in both cases that value is in the cache afterwards, under that
  key, and nothing else in the cache has changed. A second call on the resulting state
  returns that cached value unchanged and leaves the state as it is: the cache is the same
  and the engine has not been invoked again.
\<close>

theorem runSearch_second_call:
  "fst (runSearch ap q st)
     = (case cache st (Key2 q False) of
          Some v \<Rightarrow> v
        | None \<Rightarrow> (case plainSearch ap q (sets ap) of
                     (rs, msgs, ex) \<Rightarrow> (sort rs, msgs, queryFeatures ex (S_exe ap))))
   \<and> cache (snd (runSearch ap q st)) = (cache st)(Key2 q False \<mapsto> fst (runSearch ap q st))
   \<and> engineCalls (snd (runSearch ap q st))
        = (case cache st (Key2 q False) of Some v \<Rightarrow> engineCalls st | None \<Rightarrow> engineCalls st @ [q])
   \<and> fst (runSearch ap q (snd (runSearch ap q st)))
        = the (cache (snd (runSearch ap q st)) (Key2 q False))
   \<and> fst (runSearch ap q (snd (runSearch ap q st))) = fst (runSearch ap q st)
   \<and> snd (runSearch ap q (snd (runSearch ap q st))) = snd (runSearch ap q st)
   \<and> engineCalls (snd (runSearch ap q (snd (runSearch ap q st))))
        = engineCalls (snd (runSearch ap q st))"
proof -
  have entry: "cache (snd (runSearch ap q st)) (Key2 q False) = Some (fst (runSearch ap q st))"
    by (rule runSearch_entry)
  have second: "runSearch ap q (snd (runSearch ap q st))
          = (fst (runSearch ap q st), snd (runSearch ap q st))"
    by (rule runSearch_hit) (rule entry)
  have first: "fst (runSearch ap q st)
     = (case cache st (Key2 q False) of
          Some v \<Rightarrow> v
        | None \<Rightarrow> (case plainSearch ap q (sets ap) of
                     (rs, msgs, ex) \<Rightarrow> (sort rs, msgs, queryFeatures ex (S_exe ap))))"
    by (simp add: runSearch_def Let_def split: option.splits prod.splits)
  have upd: "cache (snd (runSearch ap q st)) = (cache st)(Key2 q False \<mapsto> fst (runSearch ap q st))"
  proof (cases "cache st (Key2 q False)")
    case None
    obtain rs msgs ex where e: "plainSearch ap q (sets ap) = (rs, msgs, ex)"
      by (cases "plainSearch ap q (sets ap)") auto
    show ?thesis by (simp add: runSearch_miss [OF None e])
  next
    case (Some v)
    then have "(cache st)(Key2 q False \<mapsto> v) = cache st" by (rule map_upd_triv)
    then show ?thesis using Some by (simp add: runSearch_hit)
  qed
  have calls: "engineCalls (snd (runSearch ap q st))
        = (case cache st (Key2 q False) of Some v \<Rightarrow> engineCalls st | None \<Rightarrow> engineCalls st @ [q])"
    by (simp add: runSearch_def Let_def split: option.splits prod.splits)
  show ?thesis
    using first upd calls second entry by simp
qed

text \<open>
  Claim C4, as stated (\<open>runSearch\<close> returns an empty result set when the engine reports
  diagnostics), fails: \<open>runSearch\<close> returns, and caches, whatever results the engine
  delivered along with its message.
\<close>

theorem runSearch_results_counterexample:
  "plainSearch app0 ''word'' (sets app0) = ([[2], [1]], ''bad feature'', None)
   \<and> fst (runSearch app0 ''word'' st0) = ([[1], [2]], ''bad feature'', [])
   \<and> fst (fst (runSearch app0 ''word'' st0)) \<noteq> []"
  by (simp add: runSearch_def app0_def st0_def queryFeatures_def Let_def)

text \<open>
  Claim C4, amended. When the engine reports diagnostics for a query that is not yet
  cached, \<open>runSearch\<close> returns the engine's results, sorted, together with those
  diagnostics, and inserts that value in the cache under the key of the query; a second
  identical query is answered from the cache with the same value, the engine having been
  invoked once. The result set is emptied by the caller: \<open>exposed_search\<close> replaces the
  results by the empty tuple whenever the search function it calls (plain or condensed)
  returns messages.
\<close>

theorem runSearch_diagnostics_cached:
  assumes "cache st (Key2 q False) = None"
    and "plainSearch ap q (sets ap) = (rs, msgs, ex)"
    and "msgs \<noteq> []"
  shows "fst (runSearch ap q st) = (sort rs, msgs, queryFeatures ex (S_exe ap))
    \<and> cache (snd (runSearch ap q st)) (Key2 q False) = Some (sort rs, msgs, queryFeatures ex (S_exe ap))
    \<and> engineCalls (snd (runSearch ap q st)) = engineCalls st @ [q]
    \<and> fst (runSearch ap q (snd (runSearch ap q st))) = (sort rs, msgs, queryFeatures ex (S_exe ap))
    \<and> engineCalls (snd (runSearch ap q (snd (runSearch ap q st)))) = engineCalls st @ [q]
    \<and> (q \<noteq> []
         \<longrightarrow> (if condensed \<and> ct \<noteq> [] then ah_runSearchCondensed H q ct c else ah_runSearch H q c)
               = ((rs', msgs), c')
         \<longrightarrow> queryPart H q condensed ct c = (([], msgs), c'))"
proof -
  let ?v = "(sort rs, msgs, queryFeatures ex (S_exe ap))"
  let ?st = "st\<lparr>cache := (cache st)(Key2 q False \<mapsto> ?v), engineCalls := engineCalls st @ [q]\<rparr>"
  have first: "runSearch ap q st = (?v, ?st)"
    by (rule runSearch_miss [OF assms(1) assms(2)])
  have second: "runSearch ap q ?st = (?v, ?st)"
    by (rule runSearch_hit) simp
  have gate: "queryPart H q condensed ct c = (([], msgs), c')"
    if "q \<noteq> []"
      and "(if condensed \<and> ct \<noteq> [] then ah_runSearchCondensed H q ct c else ah_runSearch H q c)
             = ((rs', msgs), c')"
    using that assms(3) by (simp add: queryPart_def)
  show ?thesis using first second gate by simp
qed

theorem runSearch_diagnostics_cached_witness:
  "cache st0 (Key2 ''word'' False) = None
   \<and> plainSearch app0 ''word'' (sets app0) = ([[2], [1]], ''bad feature'', None)
   \<and> ''bad feature'' \<noteq> []
   \<and> ''word'' \<noteq> []
   \<and> ah_runSearch helpers0 ''word'' () = (([[1], [2]], ''bad feature''), ())
   \<and> fst (runSearch app0 ''word'' (snd (runSearch app0 ''word'' st0))) = ([[1], [2]], ''bad feature'', [])
   \<and> engineCalls (snd (runSearch app0 ''word'' (snd (runSearch app0 ''word'' st0)))) = [''word'']
   \<and> queryPart helpers0 ''word'' False [] () = (([], ''bad feature''), ())"
proof -
  have a: "cache st0 (Key2 ''word'' False) = None" by (simp add: st0_def)
  have b: "plainSearch app0 ''word'' (sets app0) = ([[2], [1]], ''bad feature'', None)"
    by (simp add: app0_def)
  have c: "''bad feature'' \<noteq> []" by simp
  have d: "ah_runSearch helpers0 ''word'' () = (([[1], [2]], ''bad feature''), ())"
    by (simp add: helpers0_def)
  have e: "sort [[2], [1::int]] = [[1], [2]]" by simp
  have f: "queryFeatures None (S_exe app0) = []" by (simp add: queryFeatures_def)
  have g: "engineCalls st0 = []" by (simp add: st0_def)
  show ?thesis
    using runSearch_diagnostics_cached
      [OF a b c, where H = helpers0 and c = "()" and rs' = "[[1], [2]]" and c' = "()"
         and ct = "[]" and condensed = False] a b d
    by (simp add: e f g)
qed

subsection \<open>Properties of the merged results\<close>

lemma sequenceE_map_Inr:
  assumes "\<And>x. x \<in> set xs \<Longrightarrow> f x = Inr (g x)"
  shows "sequenceE (map f xs) = Inr (map g xs)"
  using assms by (induction xs) simp_all

lemma py_index_in_range:
  assumes "0 \<le> i" and "i < int (length xs)"
  shows "py_index xs i = Inr (xs ! nat i)"
  using assms by (simp add: py_index_def Let_def)

lemma set_sortedSet: "set (sortedSet P xs) = {n \<in> set xs. P n}"
  by (auto simp add: sortedSet_def)

lemma sorted_sortedSet: "sorted (sortedSet P xs) \<and> distinct (sortedSet P xs)"
  by (simp add: sortedSet_def)

lemma lookups_ok:
  assumes "\<And>n. n \<in> set ns \<Longrightarrow> 1 \<le> n \<and> n \<le> int (length qr)"
  shows "sequenceE (map (\<lambda>n. bindE (py_index qr (n - 1)) (\<lambda>r. Inr (n, r))) ns)
           = Inr (map (\<lambda>n. (n, qr ! nat (n - 1))) ns)"
proof (rule sequenceE_map_Inr)
  fix n assume "n \<in> set ns"
  then have "0 \<le> n - 1" and "n - 1 < int (length qr)" using assms by force+
  then show "bindE (py_index qr (n - 1)) (\<lambda>r. Inr (n, r)) = Inr (n, qr ! nat (n - 1))"
    by (simp add: py_index_in_range bindE_def)
qed

lemma py_slice_nonneg:
  assumes "0 \<le> a" and "0 \<le> b"
  shows "py_slice xs a b = take (nat b - nat a) (drop (nat a) xs)"
proof (cases "length xs \<le> nat a")
  case True
  then show ?thesis using assms by (simp add: py_slice_def py_bound_def Let_def)
next
  case False
  show ?thesis
  proof (cases "length xs \<le> nat b")
    case True
    then have "length (drop (nat a) xs) \<le> nat b - nat a" by simp
    then have "take (nat b - nat a) (drop (nat a) xs) = drop (nat a) xs" by (rule take_all)
    moreover have "take (length xs - nat a) (drop (nat a) xs) = drop (nat a) xs" by simp
    ultimately show ?thesis
      using assms True False by (simp add: py_slice_def py_bound_def Let_def min_def)
  next
    case False
    then show ?thesis
      using assms \<open>\<not> length xs \<le> nat a\<close> by (simp add: py_slice_def py_bound_def Let_def min_def)
  qed
qed

lemma window_slice:
  assumes "1 \<le> start" and "0 \<le> e"
  shows "map (\<lambda>(i, r). (int i + start, r)) (enumerate 0 (py_slice qr (start - 1) e))
           = map (\<lambda>n. (n, qr ! nat (n - 1))) [start..min e (int (length qr))]"
proof -
  let ?sl = "take (nat e - nat (start - 1)) (drop (nat (start - 1)) qr)"
  have sl: "py_slice qr (start - 1) e = ?sl"
    using assms by (simp add: py_slice_nonneg)
  have len: "length ?sl = length [start..min e (int (length qr))]"
    using assms by (simp add: min_def) arith
  have "map (\<lambda>(i, r). (int i + start, r)) (enumerate 0 ?sl)
           = map (\<lambda>n. (n, qr ! nat (n - 1))) [start..min e (int (length qr))]"
  proof (rule nth_equalityI)
    show "length (map (\<lambda>(i, r). (int i + start, r)) (enumerate 0 ?sl))
           = length (map (\<lambda>n. (n, qr ! nat (n - 1))) [start..min e (int (length qr))])"
      using len by simp
    fix i
    assume "i < length (map (\<lambda>(i, r). (int i + start, r)) (enumerate 0 ?sl))"
    then have i: "i < length ?sl" by simp
    have i2: "i < length [start..min e (int (length qr))]" using i by (simp only: len)
    have "nat (start - 1) \<le> length qr" using i by simp arith
    then have "?sl ! i = qr ! (nat (start - 1) + i)"
      using i by (simp add: nth_drop)
    moreover have "i < nat (min e (int (length qr)) - start + 1)"
      using i2 by simp
    then have "start + int i \<le> min e (int (length qr))"
      by arith
    then have "[start..min e (int (length qr))] ! i = start + int i"
      by (rule nth_upto)
    moreover have "nat (start + int i - 1) = nat (start - 1) + i" using assms by simp
    ultimately show "map (\<lambda>(i, r). (int i + start, r)) (enumerate 0 ?sl) ! i
          = map (\<lambda>n. (n, qr ! nat (n - 1))) [start..min e (int (length qr))] ! i"
      using i i2 by (simp add: nth_enumerate_eq add.commute)
  qed
  then show ?thesis using sl by simp
qed


lemma sequenceE_Inr_set:
  assumes "sequenceE xs = Inr ys" and "y \<in> set ys"
  shows "Inr y \<in> set xs"
  using assms
proof (induction xs arbitrary: ys)
  case Nil
  then show ?case by simp
next
  case (Cons x xs)
  then show ?case by (auto split: sum.splits)
qed

lemma parseTuples_negative:
  assumes "p \<in> set (fst (parseTuples B tuples))"
  shows "fst p < 0"
proof -
  let ?f = "\<lambda>(i, t). case parseTupleLine B t of Inl msg \<Rightarrow> Inl msg | Inr ns \<Rightarrow> Inr (- int i - 1, ns)"
  let ?xs = "map ?f (filter (\<lambda>(i, t). t \<noteq> []) (enumerate 0 (py_split CHR 0x0A tuples)))"
  obtain rs where rs: "sequenceE ?xs = Inr rs" and p: "p \<in> set rs"
    using assms by (auto simp add: parseTuples_def Let_def split: sum.splits)
  have "Inr p \<in> set ?xs" by (rule sequenceE_Inr_set [OF rs p])
  then obtain i t where "?f (i, t) = Inr p" by auto
  then show ?thesis by (auto split: sum.splits)
qed

lemma sequenceE_Inl:
  assumes "\<exists>x\<in>set xs. f x = Inl e"
    and "\<forall>x\<in>set xs. \<forall>e'. f x = Inl e' \<longrightarrow> e' = e"
  shows "sequenceE (map f xs) = Inl e"
  using assms
proof (induction xs)
  case Nil
  then show ?case by simp
next
  case (Cons x xs)
  show ?case
  proof (cases "f x")
    case (Inl e')
    then have "e' = e" using Cons.prems(2) by auto
    then show ?thesis using Inl by simp
  next
    case (Inr y)
    then have "\<exists>x\<in>set xs. f x = Inl e" using Cons.prems(1) by auto
    moreover have "\<forall>x\<in>set xs. \<forall>e'. f x = Inl e' \<longrightarrow> e' = e"
      using Cons.prems(2) by simp
    ultimately have "sequenceE (map f xs) = Inl e" by (rule Cons.IH)
    then show ?thesis using Inr by simp
  qed
qed

lemma allResults_IndexError:
  assumes "\<exists>n\<in>set opened. int (length queryResults) < n \<and> n < start"
  shows "allResults tupleResults queryResults opened start end' = Inl IndexError"
proof -
  let ?look = "\<lambda>n. bindE (py_index queryResults (n - 1)) (\<lambda>r. Inr (n, r))"
  let ?bs = "sortedSet (\<lambda>n. 0 < n \<and> n < start) opened"
  obtain n where n: "n \<in> set opened" "int (length queryResults) < n" "n < start"
    using assms by auto
  then have "n \<in> set ?bs" by (simp add: set_sortedSet)
  moreover have "?look n = Inl IndexError"
    using n by (simp add: py_index_def bindE_def Let_def)
  ultimately have ex: "\<exists>x\<in>set ?bs. ?look x = Inl IndexError" by blast
  have only: "e' = IndexError" if "?look x = Inl e'" for x e'
    using that by (auto simp add: py_index_def bindE_def Let_def split: if_splits)
  have "sequenceE (map ?look ?bs) = Inl IndexError"
    by (rule sequenceE_Inl [OF ex]) (use only in blast)
  then show ?thesis
    unfolding allResults_def Let_def by (simp add: bindE_def)
qed

lemma batchAround_window:
  assumes "0 < batch" and "0 \<le> tot" and "batchAround tot position batch = (start, end')"
  shows "(tot = 0 \<and> start = 0 \<and> end' = 0) \<or> (0 < tot \<and> 1 \<le> start \<and> start \<le> end' \<and> end' \<le> tot)"
proof (cases "tot = 0")
  case True
  then show ?thesis using assms batchAroundH_zero [OF assms(1), of "halfBatch batch" position]
    by (simp add: batchAround_def)
next
  case False
  then have pos: "0 < tot" using assms(2) by simp
  have "start = fst (batchAroundH (halfBatch batch) tot position batch)"
    and "end' = snd (batchAroundH (halfBatch batch) tot position batch)"
    using assms(3) by (simp_all add: batchAround_def)
  then show ?thesis
    using batchAroundH_bounds [OF pos assms(1), of "halfBatch batch" position] pos by simp
qed

lemma allResults_eq:
  assumes win: "(start = 0 \<and> end' = 0 \<and> queryResults = []) \<or> (1 \<le> start \<and> start \<le> end')"
    and op: "\<forall>n\<in>set opened. n < start \<longrightarrow> n \<le> int (length queryResults)"
  shows "allResults tupleResults queryResults opened start end' =
           Inr (tupleResults
                @ map (\<lambda>n. (n, queryResults ! nat (n - 1))) (sortedSet (\<lambda>n. 0 < n \<and> n < start) opened)
                @ map (\<lambda>n. (n, queryResults ! nat (n - 1))) [max 1 start..min end' (int (length queryResults))]
                @ map (\<lambda>n. (n, queryResults ! nat (n - 1)))
                    (sortedSet (\<lambda>n. end' < n \<and> n \<le> int (length queryResults)) opened))"
proof -
  let ?E = "\<lambda>n. (n, queryResults ! nat (n - 1))"
  have bef: "sequenceE (map (\<lambda>n. bindE (py_index queryResults (n - 1)) (\<lambda>r. Inr (n, r)))
                      (sortedSet (\<lambda>n. 0 < n \<and> n < start) opened))
               = Inr (map ?E (sortedSet (\<lambda>n. 0 < n \<and> n < start) opened))"
    by (rule lookups_ok) (use op in \<open>auto simp add: set_sortedSet\<close>)
  have e0: "0 \<le> end'" using win by auto
  have aft: "sequenceE (map (\<lambda>n. bindE (py_index queryResults (n - 1)) (\<lambda>r. Inr (n, r)))
                      (sortedSet (\<lambda>n. end' < n \<and> n \<le> int (length queryResults)) opened))
               = Inr (map ?E (sortedSet (\<lambda>n. end' < n \<and> n \<le> int (length queryResults)) opened))"
    by (rule lookups_ok) (use e0 in \<open>auto simp add: set_sortedSet\<close>)
  have sel: "map (\<lambda>(i, r). (int i + start, r)) (enumerate 0 (py_slice queryResults (start - 1) end'))
               = map ?E [max 1 start..min end' (int (length queryResults))]"
  proof (cases "1 \<le> start")
    case True
    then show ?thesis using window_slice [OF True e0, of queryResults] by (simp add: max_def)
  next
    case False
    then have "start = 0" "end' = 0" "queryResults = []" using win by auto
    then show ?thesis by (simp add: py_slice_def py_bound_def)
  qed
  show ?thesis
    unfolding allResults_def Let_def bef aft sel by (simp add: bindE_def)
qed

text \<open>
  Claim C7. For a batch size \<open>b > 0\<close> and the window \<open>(start, end)\<close> computed for the
  literal tuples and the query results together, the code does one of two things. If some
  kept-open index lies before the window but beyond the query results, the lookup
  \<^verbatim>\<open>queryResults[n - 1]\<close> raises IndexError and no sequence is produced: the set of the
  indices before the window is not restricted to the positions of query results, as the
  set of those after the window is. Otherwise the merged sequence is, in this order: the
  literal tuples (each with a negative index); the kept-open indices \<open>n\<close> with
  \<open>0 < n < start\<close>, ascending, each once; the window, from \<open>start\<close> to the smaller of \<open>end\<close>
  and the number of query results; the kept-open indices \<open>n\<close> after \<open>end\<close> and up to the
  number of query results, ascending, each once; every index of the last three groups
  comes with the query result at that position.
\<close>

theorem allResults_merged:
  assumes "0 < batch"
    and "batchAround (int (length tupleResults) + int (length queryResults)) position batch
           = (start, end')"
  shows "allResults tupleResults queryResults opened start end' =
           (if \<exists>n\<in>set opened. int (length queryResults) < n \<and> n < start
            then Inl IndexError
            else Inr (tupleResults
                @ map (\<lambda>n. (n, queryResults ! nat (n - 1))) (sortedSet (\<lambda>n. 0 < n \<and> n < start) opened)
                @ map (\<lambda>n. (n, queryResults ! nat (n - 1))) [max 1 start..min end' (int (length queryResults))]
                @ map (\<lambda>n. (n, queryResults ! nat (n - 1)))
                    (sortedSet (\<lambda>n. end' < n \<and> n \<le> int (length queryResults)) opened)))
    \<and> sorted (sortedSet (\<lambda>n. 0 < n \<and> n < start) opened)
    \<and> distinct (sortedSet (\<lambda>n. 0 < n \<and> n < start) opened)
    \<and> set (sortedSet (\<lambda>n. 0 < n \<and> n < start) opened) = {n \<in> set opened. 0 < n \<and> n < start}
    \<and> sorted (sortedSet (\<lambda>n. end' < n \<and> n \<le> int (length queryResults)) opened)
    \<and> distinct (sortedSet (\<lambda>n. end' < n \<and> n \<le> int (length queryResults)) opened)
    \<and> set (sortedSet (\<lambda>n. end' < n \<and> n \<le> int (length queryResults)) opened)
        = {n \<in> set opened. end' < n \<and> n \<le> int (length queryResults)}
    \<and> (\<forall>p\<in>set (fst (parseTuples B tuples)). fst p < 0)"
proof -
  have nonneg: "0 \<le> int (length tupleResults) + int (length queryResults)" by simp
  have empty: "queryResults = []"
    if "int (length tupleResults) + int (length queryResults) = 0"
  proof -
    from that have "length queryResults = 0" by linarith
    then show ?thesis by simp
  qed
  from batchAround_window [OF assms(1) nonneg assms(2)]
  have win: "(start = 0 \<and> end' = 0 \<and> queryResults = []) \<or> (1 \<le> start \<and> start \<le> end')"
    using empty by blast
  have main: "allResults tupleResults queryResults opened start end' =
           (if \<exists>n\<in>set opened. int (length queryResults) < n \<and> n < start
            then Inl IndexError
            else Inr (tupleResults
                @ map (\<lambda>n. (n, queryResults ! nat (n - 1))) (sortedSet (\<lambda>n. 0 < n \<and> n < start) opened)
                @ map (\<lambda>n. (n, queryResults ! nat (n - 1))) [max 1 start..min end' (int (length queryResults))]
                @ map (\<lambda>n. (n, queryResults ! nat (n - 1)))
                    (sortedSet (\<lambda>n. end' < n \<and> n \<le> int (length queryResults)) opened)))"
  proof (cases "\<exists>n\<in>set opened. int (length queryResults) < n \<and> n < start")
    case True
    then show ?thesis using allResults_IndexError [of opened queryResults start] by simp
  next
    case False
    then have op: "\<forall>n\<in>set opened. n < start \<longrightarrow> n \<le> int (length queryResults)" by auto
    show ?thesis using allResults_eq [OF win op, of tupleResults] False by simp
  qed
  show ?thesis
    using main by (simp add: sorted_sortedSet set_sortedSet parseTuples_negative)
qed

text \<open>
  The theorem at two inputs. Three literal tuples and one query result, batch \<open>1\<close> and
  position \<open>4\<close>: the window is \<open>(3, 3)\<close>, the kept-open index \<open>2\<close> lies before it, there is no
  second query result, and the request ends in IndexError. One literal tuple and five
  query results, batch \<open>2\<close> and position \<open>3\<close>: the window is \<open>(2, 3)\<close>, and of the kept-open
  indices \<open>5, 1, 9, 0, -3\<close> those that are positions of query results, \<open>1\<close> and \<open>5\<close>, are
  listed around the window.
\<close>

theorem allResults_merged_witness:
  "(0::int) < 1
   \<and> batchAround (int (length [(- 1 :: int, [7 :: int]), (- 2, [8]), (- 3, [9])]) + int (length [[10 :: int]])) 4 1 = (3, 3)
   \<and> allResults [(- 1, [7]), (- 2, [8]), (- 3, [9])] [[10]] [2] 3 3 = Inl IndexError
   \<and> exposed_search builtins0 helpers1 ''word'' [CHR ''7'', CHR 0x0A, CHR ''8'', CHR 0x0A, CHR ''9''] False [] 1 4 [2] () ()
       = (Inl IndexError, ())
   \<and> batchAround (int (length [(- 1 :: int, [7 :: int])]) + int (length [[1], [2], [3], [4], [5 :: int]])) 3 2 = (2, 3)
   \<and> allResults [(- 1, [7])] [[1], [2], [3], [4], [5]] [5, 1, 9, 0, - 3, 5] 2 3
       = Inr [(- 1, [7]), (1, [1]), (2, [2]), (3, [3]), (5, [5])]"
proof -
  have a1: "(0::int) < 1" and a2: "(0::int) < 2" by simp_all
  have b1: "batchAround (int (length [(- 1 :: int, [7 :: int]), (- 2, [8]), (- 3, [9])]) + int (length [[10 :: int]])) 4 1 = (3, 3)"
    by (simp add: batchAround_def batchAroundH_def halfBatch_def Let_def)
  have b2: "batchAround (int (length [(- 1 :: int, [7 :: int])]) + int (length [[1], [2], [3], [4], [5 :: int]])) 3 2 = (2, 3)"
    by (simp add: batchAround_def batchAroundH_def halfBatch_def Let_def)
  have p: "parseTuples builtins0 [CHR ''7'', CHR 0x0A, CHR ''8'', CHR 0x0A, CHR ''9'']
             = ([(- 1, [7]), (- 2, [8]), (- 3, [9])], [])"
    by (simp add: parseTuples_def parseTupleLine_def builtins0_def enumerate_eq_zip Let_def)
  have q: "queryPart helpers1 ''word'' False [] () = (([[10]], []), ())"
    by (simp add: queryPart_def helpers1_def)
  have d: "sortedSet (\<lambda>n. 0 < n \<and> n < 2) [5, 1, 9, 0, - 3, 5] = [1]"
    "sortedSet (\<lambda>n. 3 < n \<and> n \<le> 5) [5, 1, 9, 0, - 3, 5] = [5]"
    by (simp_all add: sortedSet_def)
  have e: "[2..3::int] = [2, 3]" by (simp add: upto.simps)
  have r1: "allResults [(- 1, [7]), (- 2, [8]), (- 3, [9])] [[10]] [2] 3 3 = Inl IndexError"
    using allResults_merged [OF a1 b1, of "[2]"] by simp
  have r2: "allResults [(- 1, [7])] [[1], [2], [3], [4], [5]] [5, 1, 9, 0, - 3, 5] 2 3
       = Inr [(- 1, [7]), (1, [1]), (2, [2]), (3, [3]), (5, [5])]"
    using allResults_merged [OF a2 b2, of "[5, 1, 9, 0, - 3, 5]"] by (simp add: d e)
  have x: "exposed_search builtins0 helpers1 ''word'' [CHR ''7'', CHR 0x0A, CHR ''8'', CHR 0x0A, CHR ''9''] False [] 1 4 [2] () ()
       = (Inl IndexError, ())"
    using b1 by (simp add: exposed_search_def p q r1 bindE_def)
  show ?thesis using a1 b1 b2 r1 r2 x by simp
qed

subsection \<open>Properties of the section tuples\<close>

lemma sectionTuple_no_levels:
  assumes "length (sectionTypes T) = 0"
  shows "sectionTuple T n lastSlot fillup = Inr []"
  using assms by (simp add: sectionTuple_def)

lemma sectionTuple_one_level:
  assumes "length (sectionTypes T) = 1" and "refSlot T n lastSlot = Inr r"
  shows "sectionTuple T n lastSlot True = Inl IndexError"
proof -
  obtain s0 where st: "sectionTypes T = [s0]"
    using assms(1) by (cases "sectionTypes T") auto
  show ?thesis
    by (simp add: sectionTuple_def Let_def bindE_def assms(2) py_index_def st)
qed

lemma sectionTuple_two_levels:
  assumes "length (sectionTypes T) = 2" and "refSlot T n lastSlot = Inr r"
  shows "sectionTuple T n lastSlot True = Inr (map (sectionLevel T n r) [0..<2])"
proof -
  obtain s0 s1 where st: "sectionTypes T = [s0, s1]"
    using assms(1) by (auto simp add: length_Suc_conv numeral_2_eq_2)
  have u: "[0..<2] = [0, Suc 0]" by (simp add: upt_rec)
  show ?thesis
    by (simp add: sectionTuple_def Let_def bindE_def assms(2) py_index_def st u sectionLevel_def)
qed

lemma sectionTuple_three_levels:
  assumes "length (sectionTypes T) = 3" and "refSlot T n lastSlot = Inr r"
  shows "sectionTuple T n lastSlot True = Inr (map (sectionLevel T n r) [0..<3])"
proof -
  obtain s0 s1 s2 where st: "sectionTypes T = [s0, s1, s2]"
    using assms(1) by (auto simp add: length_Suc_conv numeral_3_eq_3)
  have u: "[0..<3] = [0, Suc 0, Suc (Suc 0)]" by (simp add: upt_rec)
  have t: "take (Suc (Suc 0)) [s0, s1, s2] = [s0, s1]" by simp
  show ?thesis
    by (simp add: sectionTuple_def Let_def bindE_def assms(2) py_index_def st u t
        sectionLevel_def numeral_2_eq_2)
qed

text \<open>
  Claim C6. For a node whose reference slot is found, \<open>sectionTuple\<close> with \<open>fillup\<close> returns
  the empty tuple when no section level is declared, and for two or three declared levels
  the tuple that has, level by level, what the specification says: as many elements as
  declared levels, with the empty string where a level below the first is missing. For a
  single declared level it raises IndexError: \<^verbatim>\<open>sTypes[1]\<close> is read without the check on
  the number of levels that guards \<^verbatim>\<open>sTypes[2]\<close>.
\<close>

theorem sectionTuple_fillup:
  assumes "refSlot T n lastSlot = Inr r"
  shows "(length (sectionTypes T) = 0 \<longrightarrow> sectionTuple T n lastSlot True = Inr [])
    \<and> (length (sectionTypes T) = 2 \<or> length (sectionTypes T) = 3 \<longrightarrow>
         sectionTuple T n lastSlot True
           = Inr (map (sectionLevel T n r) [0..<length (sectionTypes T)]))
    \<and> (length (sectionTypes T) = 1 \<longrightarrow> sectionTuple T n lastSlot True = Inl IndexError)"
  using sectionTuple_no_levels [of T n lastSlot True]
    sectionTuple_one_level [OF _ assms]
    sectionTuple_two_levels [OF _ assms]
    sectionTuple_three_levels [OF _ assms]
  by auto

text \<open>
  The theorem at two inputs: the book \<open>4\<close> in the corpus with three section levels, the
  third without nodes (the tuple ends in the empty string; without \<open>fillup\<close> it is the book
  alone), and the book \<open>4\<close> in the corpus with one section level.
\<close>

theorem sectionTuple_fillup_witness:
  "refSlot corpus3 4 False = Inr 1
   \<and> length (sectionTypes corpus3) = 3
   \<and> sectionTuple corpus3 4 False True = Inr [SecNode 4, SecNode 5, SecEmpty]
   \<and> sectionTuple corpus3 4 False False = Inr [SecNode 4]
   \<and> refSlot corpus1 4 False = Inr 1
   \<and> length (sectionTypes corpus1) = 1
   \<and> sectionTuple corpus1 4 False True = Inl IndexError"
proof -
  have a3: "refSlot corpus3 4 False = Inr 1"
    by (simp add: corpus3_def corpus0_def refSlot_def py_index_def bindE_def Let_def)
  have a1: "refSlot corpus1 4 False = Inr 1"
    by (simp add: corpus1_def corpus0_def refSlot_def py_index_def bindE_def Let_def)
  have l3: "length (sectionTypes corpus3) = 3" by (simp add: corpus3_def)
  have l1: "length (sectionTypes corpus1) = 1" by (simp add: corpus1_def)
  have u: "[0..<3] = [0, Suc 0, Suc (Suc 0)]" by (simp add: upt_rec)
  have lv: "sectionLevel corpus3 4 1 0 = SecNode 4"
    "sectionLevel corpus3 4 1 (Suc 0) = SecNode 5"
    "sectionLevel corpus3 4 1 (Suc (Suc 0)) = SecEmpty"
    by (simp_all add: sectionLevel_def corpus3_def corpus0_def firstOr_def)
  have nf: "sectionTuple corpus3 4 False False = Inr [SecNode 4]"
    by (simp add: corpus3_def corpus0_def sectionTuple_def refSlot_def py_index_def bindE_def Let_def)
  show ?thesis
    using sectionTuple_fillup [OF a3] sectionTuple_fillup [OF a1] a3 a1 l3 l1 nf
    by (simp add: u lv)
qed

subsection \<open>Properties of the structure methods\<close>

text \<open>
  Claim C3 at the failing input. Without a structure, \<open>top\<close>, \<open>up\<close>, \<open>down\<close>,
  \<open>structure\<close> and \<open>headingFromNode\<close> report that structure types are not configured and
  return \<^verbatim>\<open>None\<close>; \<open>nodeFromHeading\<close> reports the same and then raises AttributeError.
\<close>

theorem structure_not_configured:
  assumes "C_structure T = None"
  shows "top T = ([NotConfigured], None)
    \<and> up T n = ([NotConfigured], None)
    \<and> down T n = ([NotConfigured], None)
    \<and> structureT (Suc k) T node = ([NotConfigured], Inr SNone)
    \<and> headingFromNode T n = ([NotConfigured], None)
    \<and> nodeFromHeading T head = ([NotConfigured], Inl AttributeError)"
  using assms
  by (simp add: top_def up_def down_def headingFromNode_def nodeFromHeading_def)

theorem structure_not_configured_witness:
  "C_structure corpus0 = None
   \<and> headingFromNode corpus0 4 = ([NotConfigured], None)
   \<and> nodeFromHeading corpus0 (Some [(''book'', StrV ''Genesis'')]) = ([NotConfigured], Inl AttributeError)"
proof -
  have a: "C_structure corpus0 = None" by (simp add: corpus0_def)
  from structure_not_configured [OF a, of 4 0 None "Some [(''book'', StrV ''Genesis'')]"]
  show ?thesis using a by simp
qed

lemma fold_upd_last:
  "fold (\<lambda>(n, h) m. m(h \<mapsto> n)) nhs m0 h =
     (case map fst (filter (\<lambda>p. snd p = h) nhs) of [] \<Rightarrow> m0 h | c # cs \<Rightarrow> Some (last (c # cs)))"
proof (induction nhs arbitrary: m0)
  case Nil
  then show ?case by simp
next
  case (Cons p nhs)
  obtain n h' where p: "p = (n, h')" by (cases p)
  let ?F = "\<lambda>(n, h) m. m(h \<mapsto> n)"
  let ?cs = "map fst (filter (\<lambda>p. snd p = h) nhs)"
  have step: "fold ?F (p # nhs) m0 h = fold ?F nhs (m0(h' \<mapsto> n)) h"
    by (simp add: p)
  have ih: "fold ?F nhs (m0(h' \<mapsto> n)) h =
              (case ?cs of [] \<Rightarrow> (m0(h' \<mapsto> n)) h | c # cs \<Rightarrow> Some (last (c # cs)))"
    by (rule Cons.IH)
  show ?case
  proof (cases "h' = h")
    case True
    then have "map fst (filter (\<lambda>p. snd p = h) (p # nhs)) = n # ?cs" by (simp add: p)
    then show ?thesis
      unfolding step ih using True by (cases ?cs) simp_all
  next
    case False
    then have "map fst (filter (\<lambda>p. snd p = h) (p # nhs)) = ?cs" by (simp add: p)
    then show ?thesis
      unfolding step ih using False by (cases ?cs) simp_all
  qed
qed

lemma last_sorted_Max:
  assumes "sorted xs" and "xs \<noteq> []"
  shows "last xs = Max (set xs)"
  using assms
proof (induction xs)
  case Nil
  then show ?case by simp
next
  case (Cons x xs)
  show ?case
  proof (cases "xs = []")
    case True
    then show ?thesis by simp
  next
    case False
    then have "last xs = Max (set xs)" using Cons by simp
    moreover have "last xs \<in> set xs" using False by simp
    then have "x \<le> last xs" using Cons.prems by auto
    ultimately show ?thesis using False by (simp add: max_def)
  qed
qed

text \<open>
  Claim C8. For a structural node \<open>x\<close> with heading \<open>h\<close>, in a structure index built from
  the structural nodes in corpus node order: \<open>nodeFromHeading (headingFromNode x)\<close> is the
  last node in that order among the nodes with heading \<open>h\<close>; it is \<open>x\<close> when \<open>x\<close> is the only
  node with that heading; and when the order is ascending in the node identifiers it is
  the largest identifier among the nodes with that heading.
\<close>

theorem heading_round_trip:
  assumes "C_structure T = Some (buildStructure nhs)"
    and "distinct (map fst nhs)"
    and "(x, h) \<in> set nhs"
    and "fOtype T x \<in> structureTypeSet T"
  shows "headingFromNode T x = ([], Some h)
    \<and> nodeFromHeading T (snd (headingFromNode T x))
         = ([], Inr (Some (last (map fst (filter (\<lambda>p. snd p = h) nhs)))))
    \<and> (map fst (filter (\<lambda>p. snd p = h) nhs) = [x]
         \<longrightarrow> nodeFromHeading T (snd (headingFromNode T x)) = ([], Inr (Some x)))
    \<and> (sorted (map fst nhs)
         \<longrightarrow> nodeFromHeading T (snd (headingFromNode T x))
               = ([], Inr (Some (Max {n. (n, h) \<in> set nhs}))))"
proof -
  let ?cs = "map fst (filter (\<lambda>p. snd p = h) nhs)"
  have hd: "headingFromNode T x = ([], Some h)"
    using assms by (simp add: headingFromNode_def buildStructure_def Let_def)
  have ne: "?cs \<noteq> []" using assms(3) by (force simp add: filter_empty_conv)
  have "ndFromHd (buildStructure nhs) h = Some (last ?cs)"
    using ne by (simp add: buildStructure_def Let_def fold_upd_last split: list.splits)
  then have nd: "nodeFromHeading T (Some h) = ([], Inr (Some (last ?cs)))"
    using assms(1) by (simp add: nodeFromHeading_def Let_def)
  have set_cs: "set ?cs = {n. (n, h) \<in> set nhs}" by force
  have mx: "last ?cs = Max {n. (n, h) \<in> set nhs}" if "sorted (map fst nhs)"
  proof -
    have "sorted ?cs" using that by (simp add: sorted_map sorted_wrt_filter)
    then show ?thesis using last_sorted_Max [OF _ ne] set_cs by simp
  qed
  show ?thesis using hd nd mx by auto
qed

theorem heading_round_trip_witness:
  "C_structure corpus2 = Some (buildStructure headings2)
   \<and> distinct (map fst headings2)
   \<and> (5, [(''book'', StrV ''Genesis''), (''chapter'', IntV 1)]) \<in> set headings2
   \<and> fOtype corpus2 5 \<in> structureTypeSet corpus2
   \<and> sorted (map fst headings2)
   \<and> nodeFromHeading corpus2 (snd (headingFromNode corpus2 5)) = ([], Inr (Some 6))
   \<and> map fst (filter (\<lambda>p. snd p = [(''book'', StrV ''Genesis'')]) headings2) = [4]
   \<and> nodeFromHeading corpus2 (snd (headingFromNode corpus2 4)) = ([], Inr (Some 4))"
proof -
  have a: "C_structure corpus2 = Some (buildStructure headings2)" by (simp add: corpus2_def)
  have b: "distinct (map fst headings2)" by (simp add: headings2_def)
  have c5: "(5, [(''book'', StrV ''Genesis''), (''chapter'', IntV 1)]) \<in> set headings2"
    and c4: "(4, [(''book'', StrV ''Genesis'')]) \<in> set headings2"
    by (simp_all add: headings2_def)
  have d: "fOtype corpus2 5 \<in> structureTypeSet corpus2" "fOtype corpus2 4 \<in> structureTypeSet corpus2"
    by (simp_all add: corpus2_def corpus0_def structureTypeSet_def)
  have e: "sorted (map fst headings2)" by (simp add: headings2_def)
  have f: "map fst (filter (\<lambda>p. snd p = [(''book'', StrV ''Genesis''), (''chapter'', IntV 1)]) headings2) = [5, 6]"
    "map fst (filter (\<lambda>p. snd p = [(''book'', StrV ''Genesis'')]) headings2) = [4]"
    by (simp_all add: headings2_def)
  show ?thesis
    using heading_round_trip [OF a b c5 d(1)] heading_round_trip [OF a b c4 d(2)] a b c5 d e f
    by auto
qed

subsection \<open>Properties of the rendering\<close>

lemma explaining_False: "explaining False ds = []"
  by (simp add: explaining_def)

lemma mapD_no_explain:
  "mapD (\<lambda>n. case repf n of Inl e \<Rightarrow> ([], Inl e) | Inr rep \<Rightarrow> (explaining False (g n rep), Inr rep)) xs
     = ([], sequenceE (map repf xs))"
  by (induction xs) (simp_all add: explaining_False split: sum.splits)

lemma resolveFormat_descend:
  assumes "truthy fmt = None"
    and "xformats T DEFAULT_FORMAT = Some repf"
    and "xdTypes T DEFAULT_FORMAT = Some D"
  shows "resolveFormat T fmt (Some True) nType =
           Inr \<lparr>r_source = Implicit, r_name = DEFAULT_FORMAT, r_repf = repf,
                r_downType = D, r_downRep = True\<rparr>"
  using assms by (simp add: resolveFormat_def py_getitem_def bindE_def)

text \<open>
  Claim C1, as stated (with \<open>descend = True\<close> and no explicit format a node whose type has
  a default format of its own is rendered with that format), fails: the lexeme \<open>3\<close> has the
  format \<^verbatim>\<open>lex-default\<close>, declared on lexemes, but is rendered with \<^verbatim>\<open>text-orig-full\<close>
  applied to its words.
\<close>

theorem text_descend_counterexample:
  "defaultFormats corpus0 (fOtype corpus0 3) = Some ''lex-default''
   \<and> xdTypes corpus0 ''lex-default'' = Some ''lex''
   \<and> map_sum id r_name (resolveFormat corpus0 None (Some True) (fOtype corpus0 3)) = Inr ''text-orig-full''
   \<and> map_sum id r_downType (resolveFormat corpus0 None (Some True) (fOtype corpus0 3)) = Inr ''word''
   \<and> textT corpus0 (Single 3) None (Some True) (None :: (node \<Rightarrow> unit \<Rightarrow> py_error + string) option) False ()
       = ([], Inr ''a b '')"
  by (simp add: corpus0_def resolveFormat_def truthy_def DEFAULT_FORMAT_def py_getitem_def
      bindE_def textT_def textNode_def expand_def py_index_def explaining_def Let_def)

text \<open>
  Claim C1, amended. With \<open>descend = True\<close> and no explicit format, the format applied to
  a node of any type, also of a type with a default format of its own, is the global
  default format \<^verbatim>\<open>text-orig-full\<close>, and the type to descend to is the one declared for
  \<^verbatim>\<open>text-orig-full\<close>: the text of a node is made of that format applied to the nodes of
  that type it expands to.
\<close>

theorem text_descend_default_format:
  assumes "truthy fmt = None"
    and "xformats T DEFAULT_FORMAT = Some repf"
    and "xdTypes T DEFAULT_FORMAT = Some D"
  shows "resolveFormat T fmt (Some True) nType =
           Inr \<lparr>r_source = Implicit, r_name = DEFAULT_FORMAT, r_repf = repf,
                r_downType = D, r_downRep = True\<rparr>
    \<and> textT T (Single n) fmt (Some True) None False kwargs =
        ([], bindE (expand T n (fOtype T n) D)
               (\<lambda>xnodes. bindE (sequenceE (map repf xnodes)) (\<lambda>reps. Inr (concat reps))))"
proof -
  have r: "resolveFormat T fmt (Some True) (fOtype T n) =
           Inr \<lparr>r_source = Implicit, r_name = DEFAULT_FORMAT, r_repf = repf,
                r_downType = D, r_downRep = True\<rparr>"
    by (rule resolveFormat_descend [OF assms])
  have "textT T (Single n) fmt (Some True) None False kwargs =
        ([], bindE (expand T n (fOtype T n) D)
               (\<lambda>xnodes. bindE (sequenceE (map repf xnodes)) (\<lambda>reps. Inr (concat reps))))"
  proof -
    have tn: "textNode T fmt (Some True) None False kwargs n =
                ([], bindE (expand T n (fOtype T n) D) (\<lambda>xnodes. sequenceE (map repf xnodes)))"
    proof (cases "expand T n (fOtype T n) D")
      case (Inl e)
      then show ?thesis
        by (simp add: textNode_def r explaining_False bindE_def Let_def)
    next
      case (Inr xnodes)
      then show ?thesis
        by (simp add: textNode_def r explaining_False mapD_no_explain bindE_def Let_def
            split: sum.splits)
    qed
    show ?thesis
    proof (cases "bindE (expand T n (fOtype T n) D) (\<lambda>xnodes. sequenceE (map repf xnodes))")
      case (Inl e)
      then show ?thesis
        using assms(1) by (auto simp add: textT_def tn bindE_def Let_def split: sum.splits)
    next
      case (Inr reps)
      then show ?thesis
        using assms(1) by (auto simp add: textT_def tn bindE_def Let_def split: sum.splits)
    qed
  qed
  then show ?thesis using resolveFormat_descend [OF assms] by simp
qed

theorem text_descend_default_format_witness:
  "truthy None = None
   \<and> xdTypes corpus0 DEFAULT_FORMAT = Some ''word''
   \<and> defaultFormats corpus0 ''lex'' = Some ''lex-default''
   \<and> map_sum id r_name (resolveFormat corpus0 None (Some True) ''lex'') = Inr DEFAULT_FORMAT
   \<and> map_sum id r_downType (resolveFormat corpus0 None (Some True) ''lex'') = Inr ''word''"
proof -
  have a: "truthy None = None" by (simp add: truthy_def)
  have b: "xformats corpus0 DEFAULT_FORMAT = Some (\<lambda>n. Inr (if n = 1 then ''a '' else ''b ''))"
    by (simp add: corpus0_def DEFAULT_FORMAT_def)
  have c: "xdTypes corpus0 DEFAULT_FORMAT = Some ''word''"
    by (simp add: corpus0_def DEFAULT_FORMAT_def)
  have d: "defaultFormats corpus0 ''lex'' = Some ''lex-default''" by (simp add: corpus0_def)
  from text_descend_default_format [OF a b c, of "''lex''" 3 "()"]
  show ?thesis using a c d by simp
qed

text \<open>
  Claim C10. For every node, format, descend value, custom function, explain flag and
  keyword arguments, \<open>Text.text\<close> returns for the bare node what it returns for the list
  holding just that node (the same string, or the same exception).
\<close>

theorem text_single:
  "snd (textT T (Single n) fmt descend func explain kwargs)
     = snd (textT T (Iterable [n]) fmt descend func explain kwargs)"
  by (simp add: textT_def Let_def bindE_def split: option.splits sum.splits prod.splits)

end
